theory Spec2Isabelle
  imports Main
begin

section \<open>The File class of src/zend/file.cpp\<close>

text \<open>
  \<^verbatim>\<open>Php::File\<close> holds the name it was asked for, the path the engine resolved it to
  (a null pointer when resolution failed) and the opcodes it was compiled to (a null
  \<^verbatim>\<open>unique_ptr\<close> until the first compilation that reaches the compiler). Its methods
  talk to the Zend engine and to the filesystem. The embedding passes that
  environment explicitly: every method takes the \<open>File\<close> and the \<open>world\<close> and
  returns its result with the new \<open>File\<close> and the new \<open>world\<close>.
\<close>

subsection \<open>Values and results\<close>

text \<open>
  A \<^verbatim>\<open>Php::Value\<close>; \<^verbatim>\<open>Value(nullptr)\<close>, which the methods return when
  they have nothing to run, is \<open>Null\<close>.
\<close>

datatype Value = Null | Val int

text \<open>
  What leaves a method other than through \<^verbatim>\<open>return\<close>: a fault that the execution
  of a script signals, and the dereference of a null \<^verbatim>\<open>_opcodes\<close>. A method that
  returns a \<open>Value\<close> has a result of type \<open>fault + Value\<close>.
\<close>

datatype fault = RuntimeFault nat | NullDereference

type_synonym outcome = "fault + Value"

subsection \<open>The environment\<close>

text \<open>
  The part of the environment that a running script can change as well: the
  engine's table \<^verbatim>\<open>EG(included_files)\<close>, the answers of \<^verbatim>\<open>zend_resolve_path\<close>, of
  \<^verbatim>\<open>zend_stream_open\<close> (\<open>None\<close> is \<^verbatim>\<open>FAILURE\<close>; \<open>Some m\<close> is a stream whose
  \<^verbatim>\<open>opened_path\<close> is \<open>m\<close>, possibly null) and of \<^verbatim>\<open>stat\<close>.
\<close>

record host =
  included_files :: "string set"
  resolvable :: "string \<rightharpoonup> string"
  streams :: "string \<rightharpoonup> string option"
  present :: "string set"

record zend_file_handle =
  filename :: string
  opened_path :: "string option"

text \<open>
  What \<^verbatim>\<open>zend_compile_file\<close> hands back. It is paired with the flag that tells
  whether the compiler produced a program that can run.
\<close>

record zend_op_array =
  ident :: nat
  well_formed :: bool

text \<open>
  The calls that leave the class, in the order they were made.
\<close>

datatype event =
  Open string
| Compile zend_file_handle
| Close zend_file_handle
| Stat string
| Execute zend_op_array

record world =
  host :: host
  open_streams :: "string list"
  trace :: "event list"

text \<open>
  The two engine entry points whose behaviour is not fixed by the File class: the
  compiler, and the executor, which runs in the host as it is at the call and leaves the
  host it has changed (also when it faults).
\<close>

record backend =
  zend_compile_file :: "zend_file_handle \<Rightarrow> zend_op_array"
  zend_execute :: "zend_op_array \<Rightarrow> host \<Rightarrow> outcome \<times> host"

definition emit :: "event \<Rightarrow> world \<Rightarrow> world" where
  "emit e w = w\<lparr>trace := trace w @ [e]\<rparr>"

definition zend_resolve_path :: "host \<Rightarrow> string \<Rightarrow> string option" where
  "zend_resolve_path h name = resolvable h name"

definition zend_stream_open :: "string \<Rightarrow> world \<Rightarrow> zend_file_handle option \<times> world" where
  "zend_stream_open p w =
     (case streams (host w) p of
        None \<Rightarrow> (None, emit (Open p) w)
      | Some m \<Rightarrow>
          (Some \<lparr>filename = p, opened_path = m\<rparr>,
           emit (Open p) (w\<lparr>open_streams := p # open_streams w\<rparr>)))"

definition zend_destroy_file_handle :: "zend_file_handle \<Rightarrow> world \<Rightarrow> world" where
  "zend_destroy_file_handle fh w =
     emit (Close fh) (w\<lparr>open_streams := remove1 (filename fh) (open_streams w)\<rparr>)"

definition stat :: "string \<Rightarrow> world \<Rightarrow> bool \<times> world" where
  "stat p w = (p \<in> present (host w), emit (Stat p) w)"

definition zend_hash_exists :: "world \<Rightarrow> string \<Rightarrow> bool" where
  "zend_hash_exists w p = (p \<in> included_files (host w))"

definition zend_hash_add_empty_element :: "string \<Rightarrow> world \<Rightarrow> world" where
  "zend_hash_add_empty_element p w =
     w\<lparr>host := (host w)\<lparr>included_files := insert p (included_files (host w))\<rparr>\<rparr>"

subsection \<open>Opcodes\<close>

text \<open>
  Modelled from the spec: the class \<^verbatim>\<open>Opcodes\<close> (the spec's CompiledUnit) is declared
  in a header that is not part of the sources at hand. The spec has it wrap the program
  the compiler produced together with a validity flag, immutable once constructed;
  \<^verbatim>\<open>valid()\<close> is true iff the wrapped program is well-formed; \<^verbatim>\<open>execute()\<close> delegates
  to the execution backend, whose fault is not caught.
\<close>

datatype Opcodes = Opcodes zend_op_array

fun program :: "Opcodes \<Rightarrow> zend_op_array" where
  "program (Opcodes a) = a"

definition Opcodes_valid :: "Opcodes \<Rightarrow> bool" where
  "Opcodes_valid u = well_formed (program u)"

definition Opcodes_execute :: "backend \<Rightarrow> Opcodes \<Rightarrow> world \<Rightarrow> outcome \<times> world" where
  "Opcodes_execute b u w =
     (let (r, h) = zend_execute b (program u) (host w)
      in (r, emit (Execute (program u)) (w\<lparr>host := h\<rparr>)))"

subsection \<open>File\<close>

record File =
  original :: string
  path :: "string option"
  opcodes :: "Opcodes option"

text \<open>The constructor: the name is kept and resolved; nothing is compiled.\<close>

definition File_new :: "host \<Rightarrow> string \<Rightarrow> File" where
  "File_new h name =
     \<lparr>original = name, path = zend_resolve_path h name, opcodes = None\<rparr>"

text \<open>
  \<^verbatim>\<open>File::compile\<close>. Both branches of the version switch open the stream at
  \<^verbatim>\<open>_path\<close> and return false on \<^verbatim>\<open>FAILURE\<close>. The temporary \<^verbatim>\<open>CompilerOptions\<close> object
  restores the compiler options when it leaves scope, so they are no part of the state.
\<close>

definition compile :: "backend \<Rightarrow> File \<Rightarrow> world \<Rightarrow> bool \<times> File \<times> world" where
  "compile b f w =
     (case path f of
        None \<Rightarrow> (False, f, w)
      | Some p \<Rightarrow>
          (case opcodes f of
             Some u \<Rightarrow> (Opcodes_valid u, f, w)
           | None \<Rightarrow>
               (case zend_stream_open p w of
                  (None, w1) \<Rightarrow> (False, f, w1)
                | (Some fh0, w1) \<Rightarrow>
                    (let fh = (if opened_path fh0 = None
                               then fh0\<lparr>opened_path := Some p\<rparr> else fh0);
                         u = Opcodes (zend_compile_file b fh);
                         w2 = emit (Compile fh) w1;
                         f' = f\<lparr>opcodes := Some u\<rparr>;
                         w3 = zend_destroy_file_handle fh w2
                     in (Opcodes_valid u, f', w3)))))"

text \<open>\<^verbatim>\<open>File::exists\<close>.\<close>

definition exists :: "File \<Rightarrow> world \<Rightarrow> bool \<times> File \<times> world" where
  "exists f w =
     (case path f of
        None \<Rightarrow> (False, f, w)
      | Some p \<Rightarrow>
          if (case opcodes f of None \<Rightarrow> False | Some u \<Rightarrow> Opcodes_valid u)
          then (True, f, w)
          else (let (r, w') = stat p w in (r, f, w')))"

text \<open>\<^verbatim>\<open>File::valid\<close>.\<close>

definition valid :: "backend \<Rightarrow> File \<Rightarrow> world \<Rightarrow> bool \<times> File \<times> world" where
  "valid b f w = compile b f w"

text \<open>
  \<^verbatim>\<open>File::execute\<close>. After a \<^verbatim>\<open>compile()\<close> that returned true the source
  dereferences \<^verbatim>\<open>_opcodes\<close> without a test; the branch in which it would be null is
  kept as a fault.
\<close>

definition execute :: "backend \<Rightarrow> File \<Rightarrow> world \<Rightarrow> outcome \<times> File \<times> world" where
  "execute b f w =
     (case opcodes f of
        Some u \<Rightarrow> (let (r, w') = Opcodes_execute b u w in (r, f, w'))
      | None \<Rightarrow>
          (let (ok, f', w') = compile b f w
           in if \<not> ok then (Inr Null, f', w')
              else (case opcodes f' of
                      None \<Rightarrow> (Inl NullDereference, f', w')
                    | Some u \<Rightarrow>
                        (let (r, w'') = Opcodes_execute b u w' in (r, f', w'')))))"

text \<open>\<^verbatim>\<open>File::once\<close>.\<close>

definition once :: "backend \<Rightarrow> File \<Rightarrow> world \<Rightarrow> outcome \<times> File \<times> world" where
  "once b f w =
     (case path f of
        None \<Rightarrow> (Inr Null, f, w)
      | Some p \<Rightarrow>
          if zend_hash_exists w p then (Inr Null, f, w)
          else execute b f (zend_hash_add_empty_element p w))"

subsection \<open>Sequences of calls\<close>

text \<open>
  What can happen to one \<open>File\<close> over its life: a call of one of its five methods, or
  something outside the class changing the host (a file appears, disappears or becomes
  readable, another script is included).
\<close>

datatype call =
  CallExists
| CallCompile
| CallValid
| CallExecute
| CallOnce
| Outside "host \<Rightarrow> host"

fun step :: "backend \<Rightarrow> call \<Rightarrow> File \<times> world \<Rightarrow> File \<times> world" where
  "step b CallExists (f, w) = snd (exists f w)"
| "step b CallCompile (f, w) = snd (compile b f w)"
| "step b CallValid (f, w) = snd (valid b f w)"
| "step b CallExecute (f, w) = snd (execute b f w)"
| "step b CallOnce (f, w) = snd (once b f w)"
| "step b (Outside g) (f, w) = (f, w\<lparr>host := g (host w)\<rparr>)"

fun run :: "backend \<Rightarrow> call list \<Rightarrow> File \<times> world \<Rightarrow> File \<times> world" where
  "run b [] s = s"
| "run b (c # cs) s = run b cs (step b c s)"

subsection \<open>Counting the calls that left the class\<close>

fun is_Execute :: "event \<Rightarrow> bool" where
  "is_Execute (Execute a) = True"
| "is_Execute e = False"

fun is_Compile :: "event \<Rightarrow> bool" where
  "is_Compile (Compile fh) = True"
| "is_Compile e = False"

fun is_Open :: "event \<Rightarrow> bool" where
  "is_Open (Open p) = True"
| "is_Open e = False"

definition executions :: "world \<Rightarrow> nat" where
  "executions w = length (filter is_Execute (trace w))"

definition compilations :: "world \<Rightarrow> nat" where
  "compilations w = length (filter is_Compile (trace w))"

definition opens :: "world \<Rightarrow> nat" where
  "opens w = length (filter is_Open (trace w))"

text \<open>
  The handle that \<open>compile\<close> gives to the compiler for the path \<open>p\<close> when the stream
  opened with the \<^verbatim>\<open>opened_path\<close> \<open>m\<close>: a missing \<^verbatim>\<open>opened_path\<close> is replaced by \<open>p\<close>.
\<close>

definition handle_of :: "string \<Rightarrow> string option \<Rightarrow> zend_file_handle" where
  "handle_of p m =
     \<lparr>filename = p, opened_path = Some (case m of None \<Rightarrow> p | Some q \<Rightarrow> q)\<rparr>"

text \<open>
  An executor that leaves in \<^verbatim>\<open>EG(included_files)\<close> every path it finds there: the
  engine adds to that table during a request and removes nothing.
\<close>

definition keeps_included :: "backend \<Rightarrow> bool" where
  "keeps_included b =
     (\<forall>a h. included_files h \<subseteq> included_files (snd (zend_execute b a h)))"

text \<open>
  A \<open>File\<close> whose \<open>compile\<close> has nothing left to try: no path, or opcodes in place.
\<close>

definition settled :: "File \<Rightarrow> bool" where
  "settled f = (path f = None \<or> opcodes f \<noteq> None)"

subsection \<open>A concrete engine\<close>

text \<open>
  The name \<open>a.inc\<close> resolves to \<open>/scripts/a.inc\<close>, which is on disk and opens
  without an \<^verbatim>\<open>opened_path\<close>; \<open>locked.inc\<close> resolves to a file that is on disk
  but does not open; \<open>missing.inc\<close> does not resolve.
\<close>

definition scenario_host :: host where
  "scenario_host =
     \<lparr>included_files = {},
      resolvable = [''a.inc'' \<mapsto> ''/scripts/a.inc'', ''locked.inc'' \<mapsto> ''/scripts/locked.inc''],
      streams = [''/scripts/a.inc'' \<mapsto> None],
      present = {''/scripts/a.inc'', ''/scripts/locked.inc''}\<rparr>"

definition scenario_world :: world where
  "scenario_world = \<lparr>host = scenario_host, open_streams = [], trace = []\<rparr>"

text \<open>A compiler that accepts every file and an executor that returns 7.\<close>

definition good_backend :: backend where
  "good_backend =
     \<lparr>zend_compile_file = (\<lambda>fh. \<lparr>ident = 1, well_formed = True\<rparr>),
      zend_execute = (\<lambda>a h. (Inr (Val 7), h))\<rparr>"

text \<open>
  A compiler that accepts every file and an executor that includes another file and
  then faults.
\<close>

definition faulting_backend :: backend where
  "faulting_backend =
     \<lparr>zend_compile_file = (\<lambda>fh. \<lparr>ident = 1, well_formed = True\<rparr>),
      zend_execute = (\<lambda>a h. (Inl (RuntimeFault 3),
         h\<lparr>included_files := insert ''/scripts/b.inc'' (included_files h)\<rparr>))\<rparr>"

text \<open>
  A compiler that rejects every file and an executor that returns 7 whatever it is
  given.
\<close>

definition rejecting_backend :: backend where
  "rejecting_backend =
     \<lparr>zend_compile_file = (\<lambda>fh. \<lparr>ident = 0, well_formed = False\<rparr>),
      zend_execute = (\<lambda>a h. (Inr (Val 7), h))\<rparr>"

text \<open>The file is deleted, or becomes readable, behind the back of the class.\<close>

definition delete_file :: "string \<Rightarrow> host \<Rightarrow> host" where
  "delete_file p h = h\<lparr>streams := (streams h)(p := None), present := present h - {p}\<rparr>"

definition make_readable :: "string \<Rightarrow> host \<Rightarrow> host" where
  "make_readable p h = h\<lparr>streams := (streams h)(p \<mapsto> None), present := insert p (present h)\<rparr>"

text \<open>
  An executor that, while it runs, loads \<open>a.inc\<close> once more through a \<open>File\<close> of
  its own: it returns 1 when that inner \<open>once\<close> had nothing to run and 2 when the inner
  \<open>once\<close> ran the file again.
\<close>

definition including_backend :: backend where
  "including_backend =
     \<lparr>zend_compile_file = (\<lambda>fh. \<lparr>ident = 1, well_formed = True\<rparr>),
      zend_execute = (\<lambda>a h.
        (case once good_backend (File_new h ''a.inc'')
                \<lparr>host = h, open_streams = [], trace = []\<rparr> of
           (r, g, w) \<Rightarrow> (if r = Inr Null then Inr (Val 1) else Inr (Val 2), host w)))\<rparr>"

lemmas scenario_defs =
  scenario_host_def scenario_world_def good_backend_def faulting_backend_def
  rejecting_backend_def including_backend_def delete_file_def make_readable_def
  File_new_def zend_resolve_path_def

lemmas method_defs =
  compile_def exists_def valid_def execute_def once_def
  zend_stream_open_def zend_destroy_file_handle_def stat_def emit_def
  zend_hash_exists_def zend_hash_add_empty_element_def
  Opcodes_valid_def Opcodes_execute_def handle_of_def Let_def

lemmas count_defs = executions_def compilations_def opens_def

section \<open>The methods, case by case\<close>

lemma compile_unresolved:
  "path f = None \<Longrightarrow> compile b f w = (False, f, w)"
  by (simp add: compile_def)

lemma compile_memo:
  "path f = Some p \<Longrightarrow> opcodes f = Some u \<Longrightarrow> compile b f w = (Opcodes_valid u, f, w)"
  by (simp add: compile_def)

lemma compile_open_failed:
  "path f = Some p \<Longrightarrow> opcodes f = None \<Longrightarrow> streams (host w) p = None \<Longrightarrow>
   compile b f w = (False, f, emit (Open p) w)"
  by (simp add: compile_def zend_stream_open_def)

lemma compile_fresh:
  assumes "path f = Some p" and "opcodes f = None" and "streams (host w) p = Some m"
  shows "compile b f w =
           (well_formed (zend_compile_file b (handle_of p m)),
            f\<lparr>opcodes := Some (Opcodes (zend_compile_file b (handle_of p m)))\<rparr>,
            w\<lparr>trace := trace w @
                 [Open p, Compile (handle_of p m), Close (handle_of p m)]\<rparr>)"
proof (cases m)
  case None
  with assms show ?thesis
    by (simp add: compile_def zend_stream_open_def zend_destroy_file_handle_def
        emit_def handle_of_def Opcodes_valid_def Let_def)
next
  case (Some q)
  with assms show ?thesis
    by (simp add: compile_def zend_stream_open_def zend_destroy_file_handle_def
        emit_def handle_of_def Opcodes_valid_def Let_def)
qed

lemma Opcodes_execute_eq:
  "Opcodes_execute b u w =
     (fst (zend_execute b (program u) (host w)),
      w\<lparr>host := snd (zend_execute b (program u) (host w)),
        trace := trace w @ [Execute (program u)]\<rparr>)"
  by (simp add: Opcodes_execute_def emit_def split: prod.split)

lemma execute_memo:
  "opcodes f = Some u \<Longrightarrow>
   execute b f w =
     (fst (zend_execute b (program u) (host w)), f,
      w\<lparr>host := snd (zend_execute b (program u) (host w)),
        trace := trace w @ [Execute (program u)]\<rparr>)"
  by (simp add: execute_def Opcodes_execute_eq)

lemma exists_file: "fst (snd (exists f w)) = f"
  by (simp add: exists_def stat_def split: option.split prod.split)

lemma compile_cases [case_names unresolved memo open_failed fresh]:
  fixes f :: File and w :: world
  obtains "path f = None"
  | p u where "path f = Some p" and "opcodes f = Some u"
  | p where "path f = Some p" and "opcodes f = None" and "streams (host w) p = None"
  | p m where "path f = Some p" and "opcodes f = None" and "streams (host w) p = Some m"
  by (cases "path f"; cases "opcodes f"; cases "streams (host w) (the (path f))") auto

lemma compile_true_memo:
  assumes "compile b f w = (True, f', w')"
  shows "\<exists>u. opcodes f' = Some u \<and> Opcodes_valid u"
proof (cases rule: compile_cases [where f = f and w = w])
  case unresolved
  with assms show ?thesis by (simp add: compile_unresolved)
next
  case (memo p u)
  with assms show ?thesis by (auto simp: compile_memo)
next
  case (open_failed p)
  with assms show ?thesis by (simp add: compile_open_failed)
next
  case (fresh p m)
  with assms show ?thesis by (auto simp: compile_fresh Opcodes_valid_def)
qed

lemma execute_unmemo_failed:
  "opcodes f = None \<Longrightarrow> compile b f w = (False, f', w') \<Longrightarrow>
   execute b f w = (Inr Null, f', w')"
  by (simp add: execute_def)

lemma execute_unmemo_compiled:
  assumes "opcodes f = None" and "compile b f w = (True, f', w')"
  shows "\<exists>u. opcodes f' = Some u \<and> Opcodes_valid u \<and>
           execute b f w =
             (fst (zend_execute b (program u) (host w')), f',
              w'\<lparr>host := snd (zend_execute b (program u) (host w')),
                 trace := trace w' @ [Execute (program u)]\<rparr>)"
proof -
  from compile_true_memo [OF assms(2)] obtain u
    where u: "opcodes f' = Some u" "Opcodes_valid u" by blast
  with assms show ?thesis
    by (simp add: execute_def Opcodes_execute_eq)
qed

lemma once_unresolved: "path f = None \<Longrightarrow> once b f w = (Inr Null, f, w)"
  by (simp add: once_def)

lemma once_included:
  "path f = Some p \<Longrightarrow> zend_hash_exists w p \<Longrightarrow> once b f w = (Inr Null, f, w)"
  by (simp add: once_def)

lemma once_first:
  "path f = Some p \<Longrightarrow> \<not> zend_hash_exists w p \<Longrightarrow>
   once b f w = execute b f (zend_hash_add_empty_element p w)"
  by (simp add: once_def)

lemma compile_settled: "settled f \<Longrightarrow> fst (snd (compile b f w)) = f \<and> snd (snd (compile b f w)) = w"
  by (cases rule: compile_cases [where f = f and w = w]) (auto simp: settled_def compile_unresolved compile_memo)


lemma step_settled:
  assumes "settled f"
  shows "fst (step b c (f, w)) = f"
proof (cases "opcodes f")
  case None
  with assms have p: "path f = None" by (simp add: settled_def)
  show ?thesis
    by (cases c) (simp_all add: exists_file valid_def compile_unresolved [OF p]
        once_unresolved [OF p] execute_unmemo_failed [OF None compile_unresolved [OF p]])
next
  case (Some u)
  have ex: "fst (snd (execute b f w')) = f" for w'
    by (simp add: execute_memo [OF Some])
  have "fst (snd (once b f w)) = f"
    by (simp add: once_def ex split: option.split)
  with assms show ?thesis
    by (cases c) (simp_all add: exists_file valid_def compile_settled ex)
qed

lemma run_settled: "settled f \<Longrightarrow> fst (run b cs (f, w)) = f"
proof (induction cs arbitrary: w)
  case Nil
  show ?case by simp
next
  case (Cons c cs)
  obtain w'' where "step b c (f, w) = (f, w'')"
    using step_settled [OF Cons.prems, of b c w] by (cases "step b c (f, w)") simp
  with Cons show ?case by simp
qed

lemma exists_trace:
  "trace (snd (snd (exists f w))) = trace w \<or>
   (\<exists>p. trace (snd (snd (exists f w))) = trace w @ [Stat p])"
  by (simp add: exists_def stat_def emit_def split: option.split)

lemma execute_settled_trace:
  assumes "settled f"
  shows "trace (snd (snd (execute b f w))) = trace w \<or>
         (\<exists>a. trace (snd (snd (execute b f w))) = trace w @ [Execute a])"
proof (cases "opcodes f")
  case None
  with assms have p: "path f = None" by (simp add: settled_def)
  show ?thesis
    by (simp add: execute_unmemo_failed [OF None compile_unresolved [OF p]])
next
  case (Some u)
  then show ?thesis by (simp add: execute_memo)
qed

lemma once_settled_trace:
  assumes "settled f"
  shows "trace (snd (snd (once b f w))) = trace w \<or>
         (\<exists>a. trace (snd (snd (once b f w))) = trace w @ [Execute a])"
proof (cases "path f")
  case None
  then show ?thesis by (simp add: once_unresolved)
next
  case (Some p)
  show ?thesis
  proof (cases "zend_hash_exists w p")
    case True
    with Some show ?thesis by (simp add: once_included)
  next
    case False
    have "trace (zend_hash_add_empty_element p w) = trace w"
      by (simp add: zend_hash_add_empty_element_def)
    with execute_settled_trace [OF assms, of b "zend_hash_add_empty_element p w"]
    show ?thesis by (simp add: once_first [OF Some False])
  qed
qed

lemma step_settled_quiet:
  assumes "settled f"
  shows "compilations (snd (step b c (f, w))) = compilations w \<and>
         opens (snd (step b c (f, w))) = opens w"
proof (cases c)
  case CallExists
  with exists_trace [of f w] show ?thesis
    by (auto simp: compilations_def opens_def)
next
  case CallCompile
  with compile_settled [OF assms, of b w] show ?thesis by simp
next
  case CallValid
  with compile_settled [OF assms, of b w] show ?thesis by (simp add: valid_def)
next
  case CallExecute
  with execute_settled_trace [OF assms, of b w] show ?thesis
    by (auto simp: compilations_def opens_def)
next
  case CallOnce
  with once_settled_trace [OF assms, of b w] show ?thesis
    by (auto simp: compilations_def opens_def)
next
  case (Outside g)
  then show ?thesis by (simp add: compilations_def opens_def)
qed

lemma run_settled_quiet:
  "settled f \<Longrightarrow>
   compilations (snd (run b cs (f, w))) = compilations w \<and>
   opens (snd (run b cs (f, w))) = opens w"
proof (induction cs arbitrary: w)
  case Nil
  show ?case by simp
next
  case (Cons c cs)
  obtain w'' where st: "step b c (f, w) = (f, w'')"
    using step_settled [OF Cons.prems, of b c w] by (cases "step b c (f, w)") simp
  with step_settled_quiet [OF Cons.prems, of b c w]
  have "compilations w'' = compilations w \<and> opens w'' = opens w" by simp
  with Cons.IH [OF Cons.prems, of w''] st show ?case by simp
qed

lemma compile_outside:
  "host (snd (snd (compile b f w))) = host w \<and>
   open_streams (snd (snd (compile b f w))) = open_streams w \<and>
   executions (snd (snd (compile b f w))) = executions w"
  by (cases rule: compile_cases [where f = f and w = w])
    (simp_all add: compile_unresolved compile_memo compile_open_failed compile_fresh
      emit_def executions_def)

lemma execute_result:
  assumes "execute b f w = (r, f', w')"
  shows "(r = Inr Null \<and> host w' = host w \<and> executions w' = executions w) \<or>
         (\<exists>a. (r, host w') = zend_execute b a (host w) \<and>
              executions w' = executions w + 1)"
proof (cases "opcodes f")
  case (Some u)
  with assms show ?thesis
    by (auto simp: execute_memo executions_def)
next
  case None
  obtain ok f1 w1 where c: "compile b f w = (ok, f1, w1)"
    by (cases "compile b f w") auto
  with compile_outside [of b f w]
  have out: "host w1 = host w" "executions w1 = executions w" by simp_all
  show ?thesis
  proof (cases ok)
    case False
    with assms c out show ?thesis
      by (simp add: execute_unmemo_failed [OF None])
  next
    case True
    with execute_unmemo_compiled [OF None, of b w f1 w1] c obtain u where
      "execute b f w =
         (fst (zend_execute b (program u) (host w1)), f1,
          w1\<lparr>host := snd (zend_execute b (program u) (host w1)),
             trace := trace w1 @ [Execute (program u)]\<rparr>)"
      by auto
    with assms out have "(r, host w') = zend_execute b (program u) (host w) \<and>
        executions w' = executions w + 1"
      by (auto simp: executions_def)
    then show ?thesis by blast
  qed
qed

lemma once_result:
  assumes "path f = Some p" and "\<not> zend_hash_exists w p"
    and "once b f w = (r, f', w')"
  shows "(r = Inr Null \<and> host w' = host (zend_hash_add_empty_element p w) \<and>
          executions w' = executions w) \<or>
         (\<exists>a. (r, host w') = zend_execute b a (host (zend_hash_add_empty_element p w)) \<and>
              executions w' = executions w + 1)"
proof -
  have e: "executions (zend_hash_add_empty_element p w) = executions w"
    by (simp add: executions_def zend_hash_add_empty_element_def)
  from once_first [OF assms(1,2), of b] assms(3)
  have "execute b f (zend_hash_add_empty_element p w) = (r, f', w')" by simp
  from execute_result [OF this] show ?thesis unfolding e .
qed

lemma keeps_includedD:
  "keeps_included b \<Longrightarrow> p \<in> included_files h \<Longrightarrow>
   p \<in> included_files (snd (zend_execute b a h))"
  unfolding keeps_included_def by blast

lemma once_registers:
  assumes "path f = Some p" and "keeps_included b" and "once b f w = (r, f', w')"
  shows "zend_hash_exists w' p \<and> executions w' \<le> executions w + 1"
proof (cases "zend_hash_exists w p")
  case True
  with assms show ?thesis by (simp add: once_included)
next
  case False
  have ins: "p \<in> included_files (host (zend_hash_add_empty_element p w))"
    by (simp add: zend_hash_add_empty_element_def)
  from once_result [OF assms(1) False assms(3)] show ?thesis
  proof (elim disjE exE conjE)
    assume "host w' = host (zend_hash_add_empty_element p w)"
      and "executions w' = executions w"
    with ins show ?thesis by (simp add: zend_hash_exists_def)
  next
    fix a
    assume a: "(r, host w') = zend_execute b a (host (zend_hash_add_empty_element p w))"
      and e: "executions w' = executions w + 1"
    from arg_cong [OF a, of snd]
    have "host w' = snd (zend_execute b a (host (zend_hash_add_empty_element p w)))"
      by simp
    with keeps_includedD [OF assms(2) ins, of a] have "p \<in> included_files (host w')"
      by simp
    with e show ?thesis by (simp add: zend_hash_exists_def)
  qed
qed

lemma compile_reached:
  assumes "compile b f w = (v, f1, w1)" and "compilations w1 \<noteq> compilations w"
  shows "\<exists>p m. path f = Some p \<and> opcodes f = None \<and> streams (host w) p = Some m"
  using assms
  by (cases rule: compile_cases [where f = f and w = w])
    (auto simp: compile_unresolved compile_memo compile_open_failed
      compilations_def emit_def)

lemma execute_compilations:
  assumes "execute b f w = (r, f1, w1)"
  shows "f1 = fst (snd (compile b f w)) \<and>
         compilations w1 = compilations (snd (snd (compile b f w)))"
proof (cases "opcodes f")
  case (Some u)
  have "compile b f w = (fst (compile b f w), f, w)"
    by (cases "path f") (simp_all add: compile_unresolved compile_memo Some)
  then have "fst (snd (compile b f w)) = f \<and> snd (snd (compile b f w)) = w"
    by (metis fst_conv snd_conv)
  with assms Some show ?thesis
    by (auto simp: execute_memo compilations_def)
next
  case None
  obtain ok f' w' where c: "compile b f w = (ok, f', w')"
    by (cases "compile b f w") auto
  show ?thesis
  proof (cases ok)
    case False
    with assms c show ?thesis by (simp add: execute_unmemo_failed [OF None])
  next
    case True
    with execute_unmemo_compiled [OF None, of b w f' w'] c assms show ?thesis
      by (auto simp: compilations_def)
  qed
qed

lemma exists_outside:
  "compilations (snd (snd (exists f w))) = compilations w \<and>
   opens (snd (snd (exists f w))) = opens w \<and>
   executions (snd (snd (exists f w))) = executions w \<and>
   host (snd (snd (exists f w))) = host w"
proof -
  have "trace (snd (snd (exists f w))) = trace w \<or>
        (\<exists>p. trace (snd (snd (exists f w))) = trace w @ [Stat p])"
    by (rule exists_trace)
  then have "compilations (snd (snd (exists f w))) = compilations w \<and>
      opens (snd (snd (exists f w))) = opens w \<and>
      executions (snd (snd (exists f w))) = executions w"
    by (auto simp: compilations_def opens_def executions_def)
  moreover have "host (snd (snd (exists f w))) = host w"
    by (simp add: exists_def stat_def emit_def split: option.split)
  ultimately show ?thesis by simp
qed

lemma step_reached:
  assumes "step b c (f, w) = (f1, w1)" and "compilations w1 \<noteq> compilations w"
  shows "\<exists>p m. path f = Some p \<and> opcodes f = None \<and> streams (host w) p = Some m \<and>
           f1 = f\<lparr>opcodes := Some (Opcodes (zend_compile_file b (handle_of p m)))\<rparr> \<and>
           compilations w1 = compilations w + 1"
proof -
  have fresh: "\<exists>p m. path f = Some p \<and> opcodes f = None \<and> streams (host w0) p = Some m \<and>
           g = f\<lparr>opcodes := Some (Opcodes (zend_compile_file b (handle_of p m)))\<rparr> \<and>
           n = compilations w0 + 1"
    if "g = fst (snd (compile b f w0))"
      and "n = compilations (snd (snd (compile b f w0)))"
      and "n \<noteq> compilations w0" for g n w0
  proof -
    from that compile_reached [of b f w0 "fst (compile b f w0)" g "snd (snd (compile b f w0))"]
    obtain p m where pm: "path f = Some p" "opcodes f = None" "streams (host w0) p = Some m"
      by auto
    from that show ?thesis
      by (simp add: compile_fresh [OF pm] pm compilations_def)
  qed
  show ?thesis
  proof (cases c)
    case CallExists
    with exists_outside [of f w] assms show ?thesis by simp
  next
    case CallCompile
    with assms fresh [where g = f1 and n = "compilations w1" and ?w0.0 = w] show ?thesis by simp
  next
    case CallValid
    with assms fresh [where g = f1 and n = "compilations w1" and ?w0.0 = w] show ?thesis by (simp add: valid_def)
  next
    case CallExecute
    with assms have "execute b f w = (fst (execute b f w), f1, w1)"
      by (cases "execute b f w") simp
    from execute_compilations [OF this] assms fresh [where g = f1 and n = "compilations w1" and ?w0.0 = w]
    show ?thesis by simp
  next
    case CallOnce
    show ?thesis
    proof (cases "path f")
      case None
      with CallOnce assms show ?thesis by (simp add: once_unresolved)
    next
      case (Some p)
      show ?thesis
      proof (cases "zend_hash_exists w p")
        case True
        with Some CallOnce assms show ?thesis by (simp add: once_included)
      next
        case False
        let ?w = "zend_hash_add_empty_element p w"
        have same: "compilations ?w = compilations w" "streams (host ?w) = streams (host w)"
          by (simp_all add: zend_hash_add_empty_element_def compilations_def)
        from CallOnce assms have "execute b f ?w = (fst (execute b f ?w), f1, w1)"
          by (cases "execute b f ?w") (simp add: once_first [OF Some False])
        from execute_compilations [OF this] assms fresh [where g = f1 and n = "compilations w1" and ?w0.0 = ?w]
        show ?thesis by (simp add: same)
      qed
    qed
  next
    case (Outside g)
    with assms have "w1 = w\<lparr>host := g (host w)\<rparr>" by simp
    then have "compilations w1 = compilations w" by (simp add: compilations_def)
    with assms show ?thesis by simp
  qed
qed

section \<open>The claims of the specification\<close>

text \<open>
  C1. Once-only guarantee of \<open>once\<close>: for two \<open>File\<close>s \<open>f1\<close> and \<open>f2\<close> with the
  same resolved path \<open>p\<close>, a call of \<open>once\<close> on the first followed by a call of
  \<open>once\<close> on the second runs the executor at most once in total, and the second call
  returns \<open>Null\<close> and changes neither the \<open>File\<close> nor the world. Either may come
  first, since \<open>f1\<close> and \<open>f2\<close> are arbitrary. The registry the first call starts from
  is arbitrary as well, so a fresh one is included. More generally, whenever \<open>p\<close> is in
  \<^verbatim>\<open>EG(included_files)\<close>, \<open>once\<close> returns \<open>Null\<close> and leaves everything as it was.
  The registry is part of the host the executor runs in; what is asked of the executor
  is that it removes no entry from it (\<open>keeps_included\<close>), whether it returns or faults.
\<close>

theorem once_only:
  assumes p1: "path f1 = Some p" and p2: "path f2 = Some p"
    and keeps: "keeps_included b"
    and c1: "once b f1 w = (r1, f1', w1)"
    and c2: "once b f2 w1 = (r2, f2', w2)"
  shows "r2 = Inr Null \<and> f2' = f2 \<and> w2 = w1 \<and> executions w2 \<le> executions w + 1 \<and>
         (\<forall>g w'. path g = Some p \<and> zend_hash_exists w' p \<longrightarrow>
            once b g w' = (Inr Null, g, w'))"
proof -
  from once_registers [OF p1 keeps c1]
  have reg: "zend_hash_exists w1 p" and cnt: "executions w1 \<le> executions w + 1"
    by simp_all
  from c2 once_included [OF p2 reg, of b]
  have "r2 = Inr Null \<and> f2' = f2 \<and> w2 = w1" by simp
  with cnt show ?thesis by (auto simp: once_included)
qed

theorem once_only_witness:
  "(let f1 = File_new scenario_host ''a.inc'';
        s1 = once faulting_backend f1 scenario_world;
        f2 = File_new (host (snd (snd s1))) ''a.inc'';
        s2 = once faulting_backend f2 (snd (snd s1))
    in path f1 = Some ''/scripts/a.inc'' \<and> path f2 = Some ''/scripts/a.inc'' \<and>
       keeps_included faulting_backend \<and>
       included_files (host scenario_world) = {} \<and>
       fst s1 = Inl (RuntimeFault 3) \<and> executions (snd (snd s1)) = 1 \<and>
       fst s2 = Inr Null \<and> s2 = (Inr Null, f2, snd (snd s1)) \<and>
       executions (snd (snd s2)) \<le> executions scenario_world + 1)"
proof -
  define f1 where "f1 = File_new scenario_host ''a.inc''"
  define s1 where "s1 = once faulting_backend f1 scenario_world"
  define f2 where "f2 = File_new (host (snd (snd s1))) ''a.inc''"
  define s2 where "s2 = once faulting_backend f2 (snd (snd s1))"
  have s1: "s1 = (Inl (RuntimeFault 3),
      f1\<lparr>opcodes := Some (Opcodes \<lparr>ident = 1, well_formed = True\<rparr>)\<rparr>,
      \<lparr>host = scenario_host\<lparr>included_files := {''/scripts/b.inc'', ''/scripts/a.inc''}\<rparr>,
       open_streams = [],
       trace = [Open ''/scripts/a.inc'', Compile (handle_of ''/scripts/a.inc'' None),
                Close (handle_of ''/scripts/a.inc'' None),
                Execute \<lparr>ident = 1, well_formed = True\<rparr>]\<rparr>)"
    by (simp add: s1_def f1_def scenario_defs method_defs)
  have p1: "path f1 = Some ''/scripts/a.inc''"
    by (simp add: f1_def scenario_defs)
  have p2: "path f2 = Some ''/scripts/a.inc''"
    by (simp add: f2_def s1 scenario_defs)
  have k: "keeps_included faulting_backend"
    by (auto simp: keeps_included_def faulting_backend_def)
  have c1: "once faulting_backend f1 scenario_world = (fst s1, fst (snd s1), snd (snd s1))"
    by (simp add: s1_def)
  have c2: "once faulting_backend f2 (snd (snd s1)) = (fst s2, fst (snd s2), snd (snd s2))"
    by (simp add: s2_def)
  from once_only [OF p1 p2 k c1 c2] p1 p2 k
  have "path f1 = Some ''/scripts/a.inc'' \<and> path f2 = Some ''/scripts/a.inc'' \<and>
       keeps_included faulting_backend \<and>
       included_files (host scenario_world) = {} \<and>
       fst s1 = Inl (RuntimeFault 3) \<and> executions (snd (snd s1)) = 1 \<and>
       fst s2 = Inr Null \<and> s2 = (Inr Null, f2, snd (snd s1)) \<and>
       executions (snd (snd s2)) \<le> executions scenario_world + 1"
    by (simp add: s1 executions_def scenario_world_def scenario_host_def prod_eq_iff)
  then show ?thesis
    by (simp add: Let_def f1_def s1_def f2_def s2_def)
qed

text \<open>
  C2. Registry before execution: when the path \<open>p\<close> is resolved and not yet in
  \<^verbatim>\<open>EG(included_files)\<close>, \<open>once\<close> is \<open>execute\<close> in the world in which \<open>p\<close> has been
  added. So either nothing was run (the stream did not open, or the compiler rejected
  the file), the result is \<open>Null\<close> and the host is the one with \<open>p\<close> added; or the
  executor was called once, in the host with \<open>p\<close> added, and its result, value or fault,
  and the host it left are what \<open>once\<close> returns. With an executor that removes no entry,
  \<open>p\<close> is in the registry afterwards in every case, a fault included. Any \<open>once\<close> for
  \<open>p\<close> in a world that has \<open>p\<close> in the registry, such as a nested one made by the
  running script, returns \<open>Null\<close> and runs nothing.
\<close>

theorem once_marks_before_running:
  assumes resolved: "path f = Some p" and fresh: "\<not> zend_hash_exists w p"
    and call: "once b f w = (r, f', w')"
  shows "once b f w = execute b f (zend_hash_add_empty_element p w) \<and>
         zend_hash_exists (zend_hash_add_empty_element p w) p \<and>
         ((r = Inr Null \<and> host w' = host (zend_hash_add_empty_element p w) \<and>
           executions w' = executions w) \<or>
          (\<exists>a. (r, host w') = zend_execute b a (host (zend_hash_add_empty_element p w)) \<and>
               executions w' = executions w + 1)) \<and>
         (keeps_included b \<longrightarrow> zend_hash_exists w' p) \<and>
         (\<forall>g w2. path g = Some p \<and> zend_hash_exists w2 p \<longrightarrow>
            once b g w2 = (Inr Null, g, w2))"
proof -
  have "zend_hash_exists (zend_hash_add_empty_element p w) p"
    by (simp add: zend_hash_exists_def zend_hash_add_empty_element_def)
  moreover have "keeps_included b \<longrightarrow> zend_hash_exists w' p"
    using once_registers [OF resolved _ call] by blast
  moreover note once_first [OF resolved fresh, of b] once_result [OF resolved fresh call]
  ultimately show ?thesis by (auto simp: once_included)
qed

theorem once_marks_before_running_witness:
  "(let f = File_new scenario_host ''a.inc'';
        w = zend_hash_add_empty_element ''/scripts/a.inc'' scenario_world;
        s = once faulting_backend f scenario_world;
        t = once including_backend f scenario_world
    in path f = Some ''/scripts/a.inc'' \<and>
       \<not> zend_hash_exists scenario_world ''/scripts/a.inc'' \<and>
       keeps_included faulting_backend \<and>
       s = execute faulting_backend f w \<and>
       fst s = Inl (RuntimeFault 3) \<and>
       zend_hash_exists (snd (snd s)) ''/scripts/a.inc'' \<and>
       once faulting_backend f (snd (snd s)) = (Inr Null, f, snd (snd s)) \<and>
       fst t = Inr (Val 1) \<and> executions (snd (snd t)) = 1)"
proof -
  define f where "f = File_new scenario_host ''a.inc''"
  define w where "w = zend_hash_add_empty_element ''/scripts/a.inc'' scenario_world"
  define s where "s = once faulting_backend f scenario_world"
  define t where "t = once including_backend f scenario_world"
  have p: "path f = Some ''/scripts/a.inc''"
    by (simp add: f_def scenario_defs)
  have n: "\<not> zend_hash_exists scenario_world ''/scripts/a.inc''"
    by (simp add: zend_hash_exists_def scenario_defs)
  have k: "keeps_included faulting_backend"
    by (auto simp: keeps_included_def faulting_backend_def)
  have cs: "once faulting_backend f scenario_world = (fst s, fst (snd s), snd (snd s))"
    by (simp add: s_def)
  have ct: "once including_backend f scenario_world = (fst t, fst (snd t), snd (snd t))"
    by (simp add: t_def)
  have rs: "fst s = Inl (RuntimeFault 3)"
    by (simp add: s_def f_def scenario_defs method_defs)
  have rt: "fst t = Inr (Val 1)" "executions (snd (snd t)) = 1"
    by (simp_all add: t_def f_def scenario_defs method_defs count_defs)
  note A = once_marks_before_running [OF p n cs]
  note B = once_marks_before_running [OF p n ct]
  from A have a1: "s = execute faulting_backend f w"
    by (simp add: s_def w_def)
  from A k have a2: "zend_hash_exists (snd (snd s)) ''/scripts/a.inc''"
    by blast
  from A p a2 have a3: "once faulting_backend f (snd (snd s)) = (Inr Null, f, snd (snd s))"
    by blast
  from B rt have b1: "fst t = Inr (Val 1) \<and> executions (snd (snd t)) = 1"
    by blast
  from p n k a1 rs a2 a3 b1 show ?thesis
    unfolding Let_def f_def w_def s_def t_def by blast
qed

text \<open>
  C3. Idempotence of \<open>compile\<close>: after a first call that fixed the validity \<open>v\<close>,
  that is, a call on a \<open>File\<close> without a path or a call that left opcodes in place,
  every later \<open>compile\<close> on the same \<open>File\<close> returns \<open>v\<close> and leaves \<open>File\<close> and
  world untouched: no stream is opened, no \<^verbatim>\<open>stat\<close> made, no compiler called. The later
  call may come after any sequence \<open>cs\<close> of other calls and outside changes.
  (The call that is left out, the one that fails to open the stream, fixes nothing: it is
  C6.)
\<close>

theorem compile_idempotent:
  assumes first: "compile b f w = (v, f1, w1)"
    and fixed: "path f = None \<or> opcodes f1 \<noteq> None"
    and later: "run b cs (f1, w') = (f2, w2)"
  shows "f2 = f1 \<and> compile b f2 w2 = (v, f2, w2)"
proof -
  have same: "path f1 = path f \<and> (opcodes f \<noteq> None \<longrightarrow> f1 = f)"
    using first
    by (cases rule: compile_cases [where f = f and w = w])
      (auto simp: compile_unresolved compile_memo compile_open_failed compile_fresh)
  with fixed have s1: "settled f1" by (auto simp: settled_def)
  with later have f2: "f2 = f1" using run_settled [of f1 b cs w'] by simp
  have "compile b f2 w2 = (v, f2, w2)"
  proof (cases rule: compile_cases [where f = f and w = w])
    case unresolved
    with first same f2 show ?thesis by (simp add: compile_unresolved)
  next
    case (memo p u)
    with first same f2 show ?thesis by (auto simp: compile_memo)
  next
    case (open_failed p)
    with first fixed show ?thesis by (simp add: compile_open_failed)
  next
    case (fresh p m)
    with first f2 show ?thesis
      by (auto simp: compile_fresh compile_memo Opcodes_valid_def)
  qed
  with f2 show ?thesis by simp
qed

theorem compile_idempotent_witness:
  "(let f = File_new scenario_host ''a.inc'';
        s = compile good_backend f scenario_world;
        t = run good_backend
              [Outside (delete_file ''/scripts/a.inc''), CallExists, CallExecute] (snd s);
        g = File_new scenario_host ''missing.inc''
    in fst s = True \<and> opcodes (fst (snd s)) \<noteq> None \<and>
       compile good_backend (fst t) (snd t) = (True, fst t, snd t) \<and>
       path g = None \<and>
       compile good_backend g scenario_world = (False, g, scenario_world))"
proof -
  define f where "f = File_new scenario_host ''a.inc''"
  define s where "s = compile good_backend f scenario_world"
  define t where "t = run good_backend
              [Outside (delete_file ''/scripts/a.inc''), CallExists, CallExecute] (snd s)"
  define g where "g = File_new scenario_host ''missing.inc''"
  have first: "compile good_backend f scenario_world = (fst s, fst (snd s), snd (snd s))"
    by (simp add: s_def)
  have v: "fst s = True" and fixed: "opcodes (fst (snd s)) \<noteq> None"
    by (simp_all add: s_def f_def scenario_defs method_defs)
  have later: "run good_backend
       [Outside (delete_file ''/scripts/a.inc''), CallExists, CallExecute]
       (fst (snd s), snd (snd s)) = (fst t, snd t)"
    by (simp add: t_def)
  have pg: "path g = None" by (simp add: g_def scenario_defs)
  have cg: "compile good_backend g scenario_world = (False, g, scenario_world)"
    by (simp add: compile_def pg)
  have rg: "run good_backend [] (g, scenario_world) = (g, scenario_world)" by simp
  note A = compile_idempotent [OF first disjI2 [OF fixed] later]
  note B = compile_idempotent [OF cg disjI1 [OF pg] rg]
  from A [THEN conjunct2]
  have a: "compile good_backend (fst t) (snd t) = (True, fst t, snd t)"
    unfolding v .
  from B [THEN conjunct2]
  have b: "compile good_backend g scenario_world = (False, g, scenario_world)" .
  from v fixed a pg b show ?thesis
    unfolding Let_def f_def s_def t_def g_def by blast
qed

text \<open>
  C4. The memo is terminal whatever the validity: whenever a call, of whichever method,
  reaches the compiler, the \<open>File\<close> had a path and no opcodes and the stream opened,
  and after the call the opcodes are the compiler's result for the handle, valid or
  not. From then on, through any sequence \<open>cs\<close> of calls and outside changes, the
  \<open>File\<close> stays as it is, the compiler is not called and no stream is opened.
\<close>

theorem memo_is_terminal:
  assumes call: "step b c (f, w) = (f1, w1)"
    and reached: "compilations w1 \<noteq> compilations w"
    and later: "run b cs (f1, w') = (f2, w2)"
  shows "\<exists>p m. path f = Some p \<and> opcodes f = None \<and> streams (host w) p = Some m \<and>
           opcodes f1 = Some (Opcodes (zend_compile_file b (handle_of p m))) \<and>
           compilations w1 = compilations w + 1 \<and>
           f2 = f1 \<and> compilations w2 = compilations w' \<and> opens w2 = opens w'"
proof -
  from step_reached [OF call reached] obtain p m where
    pm: "path f = Some p" "opcodes f = None" "streams (host w) p = Some m"
    and f1: "f1 = f\<lparr>opcodes := Some (Opcodes (zend_compile_file b (handle_of p m)))\<rparr>"
    and n: "compilations w1 = compilations w + 1"
    by blast
  from f1 have s1: "settled f1" by (simp add: settled_def)
  from run_settled [OF s1, of b cs w'] later have f2: "f2 = f1" by simp
  from run_settled_quiet [OF s1, of b cs w'] later
  have q: "compilations w2 = compilations w' \<and> opens w2 = opens w'" by simp
  from pm f1 n f2 q show ?thesis by simp
qed

theorem memo_is_terminal_witness:
  "(let f = File_new scenario_host ''a.inc'';
        s = step rejecting_backend CallExecute (f, scenario_world);
        t = run rejecting_backend
              [CallCompile, CallValid, Outside (delete_file ''/scripts/a.inc''),
               CallExecute, CallOnce, CallExists] s
    in compilations (snd s) \<noteq> compilations scenario_world \<and>
       opcodes (fst s) = Some (Opcodes \<lparr>ident = 0, well_formed = False\<rparr>) \<and>
       fst t = fst s \<and> compilations (snd t) = 1 \<and> opens (snd t) = 1)"
proof -
  define f where "f = File_new scenario_host ''a.inc''"
  define s where "s = step rejecting_backend CallExecute (f, scenario_world)"
  define t where "t = run rejecting_backend
              [CallCompile, CallValid, Outside (delete_file ''/scripts/a.inc''),
               CallExecute, CallOnce, CallExists] s"
  have s: "s = (f\<lparr>opcodes := Some (Opcodes \<lparr>ident = 0, well_formed = False\<rparr>)\<rparr>,
      scenario_world\<lparr>trace := [Open ''/scripts/a.inc'',
         Compile (handle_of ''/scripts/a.inc'' None),
         Close (handle_of ''/scripts/a.inc'' None)]\<rparr>)"
    by (simp add: s_def f_def scenario_defs method_defs)
  have call: "step rejecting_backend CallExecute (f, scenario_world) = (fst s, snd s)"
    by (simp add: s_def)
  have reached: "compilations (snd s) \<noteq> compilations scenario_world"
    by (simp add: s count_defs scenario_world_def)
  have later: "run rejecting_backend
       [CallCompile, CallValid, Outside (delete_file ''/scripts/a.inc''),
        CallExecute, CallOnce, CallExists] (fst s, snd s) = (fst t, snd t)"
    by (simp add: t_def)
  from memo_is_terminal [OF call reached later] reached
  have "compilations (snd s) \<noteq> compilations scenario_world \<and>
       opcodes (fst s) = Some (Opcodes \<lparr>ident = 0, well_formed = False\<rparr>) \<and>
       fst t = fst s \<and> compilations (snd t) = 1 \<and> opens (snd t) = 1"
    by (auto simp: s count_defs)
  then show ?thesis
    by (simp add: Let_def f_def s_def t_def)
qed

text \<open>
  C5. \<open>execute\<close>: with opcodes in place it calls the executor on them, without asking
  whether they are valid, and returns its result. Without opcodes it calls \<open>compile\<close>;
  when that returns false the result is \<open>Null\<close>, in the state \<open>compile\<close> left; when it
  returns true there are opcodes, and the executor is called on them in the world
  \<open>compile\<close> left.
\<close>

theorem execute_semantics:
  "(\<forall>u. opcodes f = Some u \<longrightarrow>
      execute b f w =
        (fst (zend_execute b (program u) (host w)), f,
         w\<lparr>host := snd (zend_execute b (program u) (host w)),
           trace := trace w @ [Execute (program u)]\<rparr>)) \<and>
   (opcodes f = None \<longrightarrow>
      (\<forall>f1 w1. compile b f w = (False, f1, w1) \<longrightarrow>
         execute b f w = (Inr Null, f1, w1)) \<and>
      (\<forall>f1 w1. compile b f w = (True, f1, w1) \<longrightarrow>
         (\<exists>u. opcodes f1 = Some u \<and>
            execute b f w =
              (fst (zend_execute b (program u) (host w1)), f1,
               w1\<lparr>host := snd (zend_execute b (program u) (host w1)),
                  trace := trace w1 @ [Execute (program u)]\<rparr>))))"
proof (intro conjI allI impI)
  fix u assume "opcodes f = Some u"
  then show "execute b f w =
        (fst (zend_execute b (program u) (host w)), f,
         w\<lparr>host := snd (zend_execute b (program u) (host w)),
           trace := trace w @ [Execute (program u)]\<rparr>)"
    by (rule execute_memo)
next
  fix f1 w1 assume "opcodes f = None" and "compile b f w = (False, f1, w1)"
  then show "execute b f w = (Inr Null, f1, w1)"
    by (rule execute_unmemo_failed)
next
  fix f1 w1 assume "opcodes f = None" and "compile b f w = (True, f1, w1)"
  from execute_unmemo_compiled [OF this]
  show "\<exists>u. opcodes f1 = Some u \<and>
            execute b f w =
              (fst (zend_execute b (program u) (host w1)), f1,
               w1\<lparr>host := snd (zend_execute b (program u) (host w1)),
                  trace := trace w1 @ [Execute (program u)]\<rparr>)"
    by blast
qed

theorem execute_semantics_witness:
  "(let f = File_new scenario_host ''a.inc'';
        u = Opcodes \<lparr>ident = 0, well_formed = False\<rparr>;
        g = File_new scenario_host ''locked.inc''
    in execute good_backend (f\<lparr>opcodes := Some u\<rparr>) scenario_world =
         (Inr (Val 7), f\<lparr>opcodes := Some u\<rparr>,
          scenario_world\<lparr>trace := [Execute \<lparr>ident = 0, well_formed = False\<rparr>]\<rparr>) \<and>
       opcodes g = None \<and>
       fst (compile good_backend g scenario_world) = False \<and>
       execute good_backend g scenario_world =
         (Inr Null, snd (compile good_backend g scenario_world)) \<and>
       opcodes f = None \<and>
       fst (compile good_backend f scenario_world) = True \<and>
       fst (execute good_backend f scenario_world) = Inr (Val 7) \<and>
       opcodes (fst (snd (execute good_backend f scenario_world))) =
         Some (Opcodes \<lparr>ident = 1, well_formed = True\<rparr>))"
proof -
  define f where "f = File_new scenario_host ''a.inc''"
  define u where "u = Opcodes \<lparr>ident = 0, well_formed = False\<rparr>"
  define g where "g = File_new scenario_host ''locked.inc''"
  have m: "opcodes (f\<lparr>opcodes := Some u\<rparr>) = Some u" by simp
  from execute_semantics [of "f\<lparr>opcodes := Some u\<rparr>" good_backend scenario_world] m
  have a: "execute good_backend (f\<lparr>opcodes := Some u\<rparr>) scenario_world =
         (Inr (Val 7), f\<lparr>opcodes := Some u\<rparr>,
          scenario_world\<lparr>trace := [Execute \<lparr>ident = 0, well_formed = False\<rparr>]\<rparr>)"
    by (simp add: u_def good_backend_def scenario_world_def)
  have og: "opcodes g = None" by (simp add: g_def File_new_def)
  have cg: "compile good_backend g scenario_world =
      (False, snd (compile good_backend g scenario_world))"
    by (simp add: g_def scenario_defs method_defs)
  then have cg': "compile good_backend g scenario_world =
      (False, fst (snd (compile good_backend g scenario_world)),
       snd (snd (compile good_backend g scenario_world)))"
    by (metis prod.collapse)
  from cg have vg: "fst (compile good_backend g scenario_world) = False"
    by (metis fst_conv)
  from execute_semantics [of g good_backend scenario_world] og cg'
  have b: "execute good_backend g scenario_world =
         (Inr Null, snd (compile good_backend g scenario_world))"
    by (metis prod.collapse)
  have "opcodes f = None" by (simp add: f_def File_new_def)
  have cf: "compile good_backend f scenario_world =
      (True, f\<lparr>opcodes := Some (Opcodes \<lparr>ident = 1, well_formed = True\<rparr>)\<rparr>,
       scenario_world\<lparr>trace := [Open ''/scripts/a.inc'',
         Compile (handle_of ''/scripts/a.inc'' None),
         Close (handle_of ''/scripts/a.inc'' None)]\<rparr>)"
    by (simp add: f_def scenario_defs method_defs)
  then have vf: "fst (compile good_backend f scenario_world) = True" by simp
  from execute_semantics [of f good_backend scenario_world] \<open>opcodes f = None\<close> cf
  have c: "fst (execute good_backend f scenario_world) = Inr (Val 7) \<and>
       opcodes (fst (snd (execute good_backend f scenario_world))) =
         Some (Opcodes \<lparr>ident = 1, well_formed = True\<rparr>)"
    by (auto simp: good_backend_def)
  from a og vg b \<open>opcodes f = None\<close> vf c show ?thesis
    unfolding Let_def f_def u_def g_def by blast
qed

text \<open>
  C6. A failed open can be retried: with a path, no opcodes and a stream that does not
  open, \<open>compile\<close> returns false and leaves the \<open>File\<close> as it was, after the one
  attempt to open. A later \<open>compile\<close> on that \<open>File\<close>, in any world, opens again; and
  if the stream opens by then, it returns the validity of what the compiler produced,
  which is stored.
\<close>

theorem open_failure_retryable:
  assumes resolved: "path f = Some p" and empty: "opcodes f = None"
    and closed: "streams (host w) p = None"
  shows "compile b f w = (False, f, emit (Open p) w) \<and>
         (\<forall>w'. opens (snd (snd (compile b f w'))) = opens w' + 1) \<and>
         (\<forall>w' m. streams (host w') p = Some m \<longrightarrow>
            fst (compile b f w') = well_formed (zend_compile_file b (handle_of p m)) \<and>
            opcodes (fst (snd (compile b f w'))) =
              Some (Opcodes (zend_compile_file b (handle_of p m))))"
proof -
  have again: "opens (snd (snd (compile b f w'))) = opens w' + 1" for w'
  proof (cases "streams (host w') p")
    case None
    then show ?thesis
      by (simp add: compile_open_failed [OF resolved empty] opens_def emit_def)
  next
    case (Some m)
    then show ?thesis
      by (simp add: compile_fresh [OF resolved empty] opens_def)
  qed
  then show ?thesis
    by (simp add: compile_open_failed [OF resolved empty closed]
        compile_fresh [OF resolved empty])
qed

theorem open_failure_retryable_witness:
  "(let f = File_new scenario_host ''locked.inc'';
        w = scenario_world\<lparr>host := make_readable ''/scripts/locked.inc'' scenario_host\<rparr>
    in path f = Some ''/scripts/locked.inc'' \<and> opcodes f = None \<and>
       streams (host scenario_world) ''/scripts/locked.inc'' = None \<and>
       compile good_backend f scenario_world =
         (False, f, scenario_world\<lparr>trace := [Open ''/scripts/locked.inc'']\<rparr>) \<and>
       opens (snd (snd (compile good_backend f scenario_world))) = 1 \<and>
       streams (host w) ''/scripts/locked.inc'' = Some None \<and>
       fst (compile good_backend f w) = True \<and>
       opcodes (fst (snd (compile good_backend f w))) =
         Some (Opcodes \<lparr>ident = 1, well_formed = True\<rparr>))"
proof -
  define f where "f = File_new scenario_host ''locked.inc''"
  define w where
    "w = scenario_world\<lparr>host := make_readable ''/scripts/locked.inc'' scenario_host\<rparr>"
  have p: "path f = Some ''/scripts/locked.inc''" and o: "opcodes f = None"
    by (simp_all add: f_def scenario_defs)
  have c: "streams (host scenario_world) ''/scripts/locked.inc'' = None"
    by (simp add: scenario_defs)
  have r: "streams (host w) ''/scripts/locked.inc'' = Some None"
    by (simp add: w_def scenario_defs)
  note A = open_failure_retryable [OF p o c, of good_backend]
  from A have a1: "compile good_backend f scenario_world =
         (False, f, scenario_world\<lparr>trace := [Open ''/scripts/locked.inc'']\<rparr>)"
    by (simp add: emit_def scenario_world_def)
  from A have a2: "opens (snd (snd (compile good_backend f scenario_world))) = 1"
    by (simp add: opens_def emit_def scenario_world_def)
  from A r have a3: "fst (compile good_backend f w) = True \<and>
       opcodes (fst (snd (compile good_backend f w))) =
         Some (Opcodes \<lparr>ident = 1, well_formed = True\<rparr>)"
    by (simp add: good_backend_def)
  from p o c a1 a2 r a3 show ?thesis
    unfolding Let_def f_def w_def by blast
qed

text \<open>
  C7. \<open>exists\<close>: false without a path; true, with no access to the filesystem, with
  a path and valid opcodes, whatever is on disk; otherwise the answer of \<^verbatim>\<open>stat\<close> for
  the path. In every case the \<open>File\<close> is unchanged, nothing is compiled, opened or run,
  and the host is as before.
\<close>

theorem exists_behaviour:
  "(path f = None \<longrightarrow> exists f w = (False, f, w)) \<and>
   (\<forall>p u. path f = Some p \<and> opcodes f = Some u \<and> Opcodes_valid u \<longrightarrow>
      exists f w = (True, f, w)) \<and>
   (\<forall>p. path f = Some p \<and> \<not> (\<exists>u. opcodes f = Some u \<and> Opcodes_valid u) \<longrightarrow>
      exists f w = (p \<in> present (host w), f, emit (Stat p) w)) \<and>
   fst (snd (exists f w)) = f \<and>
   compilations (snd (snd (exists f w))) = compilations w \<and>
   opens (snd (snd (exists f w))) = opens w \<and>
   executions (snd (snd (exists f w))) = executions w \<and>
   host (snd (snd (exists f w))) = host w"
proof -
  have "trace (snd (snd (exists f w))) = trace w \<or>
        (\<exists>p. trace (snd (snd (exists f w))) = trace w @ [Stat p])"
    by (rule exists_trace)
  then have quiet: "compilations (snd (snd (exists f w))) = compilations w \<and>
      opens (snd (snd (exists f w))) = opens w \<and>
      executions (snd (snd (exists f w))) = executions w"
    by (auto simp: compilations_def opens_def executions_def)
  have h: "host (snd (snd (exists f w))) = host w"
    by (simp add: exists_def stat_def emit_def split: option.split)
  have c: "\<forall>p. path f = Some p \<and> \<not> (\<exists>u. opcodes f = Some u \<and> Opcodes_valid u) \<longrightarrow>
      exists f w = (p \<in> present (host w), f, emit (Stat p) w)"
    by (auto simp: exists_def stat_def split: option.split)
  have a: "path f = None \<longrightarrow> exists f w = (False, f, w)"
    and b: "\<forall>p u. path f = Some p \<and> opcodes f = Some u \<and> Opcodes_valid u \<longrightarrow>
      exists f w = (True, f, w)"
    by (simp_all add: exists_def)
  from a b c quiet h exists_file [of f w] show ?thesis by blast
qed

theorem exists_behaviour_witness:
  "(let g = File_new scenario_host ''missing.inc'';
        f = File_new scenario_host ''a.inc'';
        f' = f\<lparr>opcodes := Some (Opcodes \<lparr>ident = 1, well_formed = True\<rparr>)\<rparr>;
        f'' = f\<lparr>opcodes := Some (Opcodes \<lparr>ident = 0, well_formed = False\<rparr>)\<rparr>;
        w = scenario_world\<lparr>host := delete_file ''/scripts/a.inc'' scenario_host\<rparr>
    in path g = None \<and> exists g scenario_world = (False, g, scenario_world) \<and>
       path f' = Some ''/scripts/a.inc'' \<and> ''/scripts/a.inc'' \<notin> present (host w) \<and>
       exists f' w = (True, f', w) \<and>
       exists f w = (False, f, w\<lparr>trace := [Stat ''/scripts/a.inc'']\<rparr>) \<and>
       exists f scenario_world =
         (True, f, scenario_world\<lparr>trace := [Stat ''/scripts/a.inc'']\<rparr>) \<and>
       exists f'' w = (False, f'', w\<lparr>trace := [Stat ''/scripts/a.inc'']\<rparr>))"
proof -
  define g where "g = File_new scenario_host ''missing.inc''"
  define f where "f = File_new scenario_host ''a.inc''"
  define f' where "f' = f\<lparr>opcodes := Some (Opcodes \<lparr>ident = 1, well_formed = True\<rparr>)\<rparr>"
  define f'' where "f'' = f\<lparr>opcodes := Some (Opcodes \<lparr>ident = 0, well_formed = False\<rparr>)\<rparr>"
  define w where "w = scenario_world\<lparr>host := delete_file ''/scripts/a.inc'' scenario_host\<rparr>"
  have pg: "path g = None" by (simp add: g_def scenario_defs)
  have pf: "path f = Some ''/scripts/a.inc''" "opcodes f = None"
    by (simp_all add: f_def scenario_defs)
  have pf': "path f' = Some ''/scripts/a.inc''"
    "opcodes f' = Some (Opcodes \<lparr>ident = 1, well_formed = True\<rparr>)"
    "Opcodes_valid (Opcodes \<lparr>ident = 1, well_formed = True\<rparr>)"
    by (simp_all add: f'_def pf Opcodes_valid_def)
  have pf'': "path f'' = Some ''/scripts/a.inc''"
    "\<not> (\<exists>u. opcodes f'' = Some u \<and> Opcodes_valid u)"
    by (simp_all add: f''_def pf Opcodes_valid_def)
  have gone: "''/scripts/a.inc'' \<notin> present (host w)"
    by (simp add: w_def scenario_defs)
  have here: "''/scripts/a.inc'' \<in> present (host scenario_world)"
    by (simp add: scenario_defs)
  have tr: "trace w = []" "trace scenario_world = []"
    by (simp_all add: w_def scenario_world_def)
  from exists_behaviour [of g scenario_world] pg
  have a: "exists g scenario_world = (False, g, scenario_world)" by blast
  from exists_behaviour [of f' w] pf'
  have b: "exists f' w = (True, f', w)" by blast
  from exists_behaviour [of f w] pf gone
  have c: "exists f w = (False, f, w\<lparr>trace := [Stat ''/scripts/a.inc'']\<rparr>)"
    by (simp add: emit_def tr)
  from exists_behaviour [of f scenario_world] pf here
  have d: "exists f scenario_world =
         (True, f, scenario_world\<lparr>trace := [Stat ''/scripts/a.inc'']\<rparr>)"
    by (simp add: emit_def tr)
  from exists_behaviour [of f'' w] pf'' gone
  have e: "exists f'' w = (False, f'', w\<lparr>trace := [Stat ''/scripts/a.inc'']\<rparr>)"
    by (simp add: emit_def tr)
  from pg a pf'(1) gone b c d e show ?thesis
    unfolding Let_def g_def f_def f'_def f''_def w_def by blast
qed

text \<open>
  C8. Uniform failure without a path: a \<open>File\<close> constructed from a name that does not
  resolve has no path at any point of its life, whatever calls \<open>cs\<close> were made on it;
  \<open>exists\<close> and \<open>valid\<close> return false, \<open>execute\<close> and \<open>once\<close> return \<open>Null\<close>, and
  each leaves the \<open>File\<close> and the whole world, trace and registry included, as it was.
\<close>

theorem unresolved_uniform:
  assumes failed: "zend_resolve_path h name = None"
    and life: "run b cs (File_new h name, w0) = (f, w1)"
  shows "path f = None \<and>
         exists f w = (False, f, w) \<and> valid b f w = (False, f, w) \<and>
         execute b f w = (Inr Null, f, w) \<and> once b f w = (Inr Null, f, w)"
proof -
  from failed have p0: "path (File_new h name) = None"
    and o0: "opcodes (File_new h name) = None"
    by (simp_all add: File_new_def)
  then have "settled (File_new h name)" by (simp add: settled_def)
  from run_settled [OF this, of b cs w0] life have "f = File_new h name" by simp
  with p0 o0 have p: "path f = None" and o: "opcodes f = None" by simp_all
  from p have "exists f w = (False, f, w)" by (simp add: exists_def)
  moreover from p have "valid b f w = (False, f, w)"
    by (simp add: valid_def compile_unresolved)
  moreover have "execute b f w = (Inr Null, f, w)"
    by (rule execute_unmemo_failed [OF o compile_unresolved [OF p]])
  moreover from p have "once b f w = (Inr Null, f, w)" by (rule once_unresolved)
  ultimately show ?thesis using p by simp
qed

theorem unresolved_uniform_witness:
  "(let f = fst (run good_backend [CallCompile, CallExecute, CallOnce, CallExists, CallValid]
                  (File_new scenario_host ''missing.inc'', scenario_world))
    in zend_resolve_path scenario_host ''missing.inc'' = None \<and>
       path f = None \<and>
       exists f scenario_world = (False, f, scenario_world) \<and>
       valid good_backend f scenario_world = (False, f, scenario_world) \<and>
       execute good_backend f scenario_world = (Inr Null, f, scenario_world) \<and>
       once good_backend f scenario_world = (Inr Null, f, scenario_world))"
proof -
  define s where
    "s = run good_backend [CallCompile, CallExecute, CallOnce, CallExists, CallValid]
           (File_new scenario_host ''missing.inc'', scenario_world)"
  have failed: "zend_resolve_path scenario_host ''missing.inc'' = None"
    by (simp add: scenario_defs)
  have life: "run good_backend [CallCompile, CallExecute, CallOnce, CallExists, CallValid]
           (File_new scenario_host ''missing.inc'', scenario_world) = (fst s, snd s)"
    by (simp add: s_def)
  from unresolved_uniform [OF failed life, of scenario_world] failed show ?thesis
    unfolding Let_def s_def by blast
qed

text \<open>
  C9. The stream is released inside \<open>compile\<close>: the streams open after any call of
  \<open>compile\<close> are those open before it. When the call opens the stream, the stream is
  held after the open, and the calls that leave the class are the open, the compiler
  and the close, in this order, whether the compiler's result is valid or not.
\<close>

theorem handle_released:
  assumes call: "compile b f w = (v, f', w')"
  shows "open_streams w' = open_streams w \<and>
         (\<forall>p m. path f = Some p \<and> opcodes f = None \<and> streams (host w) p = Some m \<longrightarrow>
            open_streams (snd (zend_stream_open p w)) = p # open_streams w \<and>
            trace w' = trace w @
              [Open p, Compile (handle_of p m), Close (handle_of p m)] \<and>
            v = well_formed (zend_compile_file b (handle_of p m)))"
proof -
  from call compile_outside [of b f w] have "open_streams w' = open_streams w" by simp
  moreover have "open_streams (snd (zend_stream_open p w)) = p # open_streams w \<and>
            trace w' = trace w @
              [Open p, Compile (handle_of p m), Close (handle_of p m)] \<and>
            v = well_formed (zend_compile_file b (handle_of p m))"
    if "path f = Some p" and "opcodes f = None" and "streams (host w) p = Some m" for p m
    using call that by (auto simp: compile_fresh zend_stream_open_def emit_def)
  ultimately show ?thesis by blast
qed

theorem handle_released_witness:
  "(let f = File_new scenario_host ''a.inc'';
        s = compile rejecting_backend f scenario_world
    in path f = Some ''/scripts/a.inc'' \<and> opcodes f = None \<and>
       streams (host scenario_world) ''/scripts/a.inc'' = Some None \<and>
       open_streams (snd (zend_stream_open ''/scripts/a.inc'' scenario_world)) =
         [''/scripts/a.inc''] \<and>
       fst s = False \<and>
       open_streams (snd (snd s)) = [] \<and>
       trace (snd (snd s)) =
         [Open ''/scripts/a.inc'',
          Compile \<lparr>filename = ''/scripts/a.inc'', opened_path = Some ''/scripts/a.inc''\<rparr>,
          Close \<lparr>filename = ''/scripts/a.inc'', opened_path = Some ''/scripts/a.inc''\<rparr>])"
proof -
  define f where "f = File_new scenario_host ''a.inc''"
  define s where "s = compile rejecting_backend f scenario_world"
  have p: "path f = Some ''/scripts/a.inc''" and o: "opcodes f = None"
    by (simp_all add: f_def scenario_defs)
  have m: "streams (host scenario_world) ''/scripts/a.inc'' = Some None"
    by (simp add: scenario_defs)
  have call: "compile rejecting_backend f scenario_world = (fst s, fst (snd s), snd (snd s))"
    by (simp add: s_def)
  have e: "open_streams scenario_world = []" "trace scenario_world = []"
    by (simp_all add: scenario_world_def)
  from handle_released [OF call] p o m
  have "open_streams (snd (zend_stream_open ''/scripts/a.inc'' scenario_world)) =
         [''/scripts/a.inc''] \<and>
       fst s = False \<and>
       open_streams (snd (snd s)) = [] \<and>
       trace (snd (snd s)) =
         [Open ''/scripts/a.inc'',
          Compile \<lparr>filename = ''/scripts/a.inc'', opened_path = Some ''/scripts/a.inc''\<rparr>,
          Close \<lparr>filename = ''/scripts/a.inc'', opened_path = Some ''/scripts/a.inc''\<rparr>]"
    by (simp add: e handle_of_def rejecting_backend_def)
  with p o m show ?thesis
    unfolding Let_def f_def s_def by blast
qed

text \<open>
  C10. \<open>execute\<close> after a rejected compilation: on a \<open>File\<close> with a path and no opcodes
  whose stream opens and whose compilation is rejected, \<open>execute\<close> returns \<open>Null\<close>
  without calling the executor, and the invalid opcodes are stored. Every later
  \<open>execute\<close> on that \<open>File\<close> (after any calls and outside changes \<open>cs\<close>) calls the
  executor on those invalid opcodes and returns what the executor returns.
\<close>

theorem execute_after_rejected_compile:
  assumes resolved: "path f = Some p" and empty: "opcodes f = None"
    and opened: "streams (host w) p = Some m"
    and rejected: "\<not> well_formed (zend_compile_file b (handle_of p m))"
    and first: "execute b f w = (r, f1, w1)"
    and later: "run b cs (f1, w') = (f2, w2)"
  shows "r = Inr Null \<and> executions w1 = executions w \<and>
         opcodes f1 = Some (Opcodes (zend_compile_file b (handle_of p m))) \<and>
         \<not> Opcodes_valid (Opcodes (zend_compile_file b (handle_of p m))) \<and>
         execute b f2 w2 =
           (fst (zend_execute b (zend_compile_file b (handle_of p m)) (host w2)), f2,
            w2\<lparr>host := snd (zend_execute b (zend_compile_file b (handle_of p m)) (host w2)),
               trace := trace w2 @ [Execute (zend_compile_file b (handle_of p m))]\<rparr>)"
proof -
  let ?a = "zend_compile_file b (handle_of p m)"
  from rejected have c: "compile b f w =
      (False, f\<lparr>opcodes := Some (Opcodes ?a)\<rparr>,
       w\<lparr>trace := trace w @ [Open p, Compile (handle_of p m), Close (handle_of p m)]\<rparr>)"
    by (simp add: compile_fresh [OF resolved empty opened])
  from first execute_unmemo_failed [OF empty c]
  have r: "r = Inr Null" and f1: "f1 = f\<lparr>opcodes := Some (Opcodes ?a)\<rparr>"
    and w1: "w1 = w\<lparr>trace := trace w @
        [Open p, Compile (handle_of p m), Close (handle_of p m)]\<rparr>"
    by simp_all
  from f1 have s1: "settled f1" by (simp add: settled_def)
  from run_settled [OF s1, of b cs w'] later have f2: "f2 = f1" by simp
  with f1 have o2: "opcodes f2 = Some (Opcodes ?a)" by simp
  from w1 have "executions w1 = executions w" by (simp add: executions_def)
  with r f1 rejected execute_memo [OF o2, of b w2] show ?thesis
    by (simp add: Opcodes_valid_def)
qed

theorem execute_after_rejected_compile_witness:
  "(let f = File_new scenario_host ''a.inc'';
        s = execute rejecting_backend f scenario_world;
        t = run rejecting_backend [CallExists, CallValid] (snd s)
    in path f = Some ''/scripts/a.inc'' \<and> opcodes f = None \<and>
       streams (host scenario_world) ''/scripts/a.inc'' = Some None \<and>
       \<not> well_formed (zend_compile_file rejecting_backend (handle_of ''/scripts/a.inc'' None)) \<and>
       fst s = Inr Null \<and> executions (snd (snd s)) = 0 \<and>
       opcodes (fst (snd s)) = Some (Opcodes \<lparr>ident = 0, well_formed = False\<rparr>) \<and>
       fst (execute rejecting_backend (fst t) (snd t)) = Inr (Val 7) \<and>
       executions (snd (snd (execute rejecting_backend (fst t) (snd t)))) = 1)"
proof -
  define f where "f = File_new scenario_host ''a.inc''"
  define s where "s = execute rejecting_backend f scenario_world"
  define t where "t = run rejecting_backend [CallExists, CallValid] (snd s)"
  have p: "path f = Some ''/scripts/a.inc''" and o: "opcodes f = None"
    by (simp_all add: f_def scenario_defs)
  have m: "streams (host scenario_world) ''/scripts/a.inc'' = Some None"
    by (simp add: scenario_defs)
  have rej: "\<not> well_formed (zend_compile_file rejecting_backend (handle_of ''/scripts/a.inc'' None))"
    by (simp add: rejecting_backend_def)
  have first: "execute rejecting_backend f scenario_world = (fst s, fst (snd s), snd (snd s))"
    by (simp add: s_def)
  have later: "run rejecting_backend [CallExists, CallValid] (fst (snd s), snd (snd s)) =
      (fst t, snd t)"
    by (simp add: t_def)
  have e: "executions scenario_world = 0"
    by (simp add: executions_def scenario_world_def)
  have et: "executions (snd t) = 0"
    by (simp add: t_def s_def f_def scenario_defs method_defs count_defs)
  note A = execute_after_rejected_compile [OF p o m rej first later]
  from A e have a1: "fst s = Inr Null \<and> executions (snd (snd s)) = 0 \<and>
       opcodes (fst (snd s)) = Some (Opcodes \<lparr>ident = 0, well_formed = False\<rparr>)"
    by (simp add: rejecting_backend_def)
  from A et have a2: "fst (execute rejecting_backend (fst t) (snd t)) = Inr (Val 7) \<and>
       executions (snd (snd (execute rejecting_backend (fst t) (snd t)))) = 1"
    by (simp add: rejecting_backend_def executions_def)
  from p o m rej a1 a2 show ?thesis
    unfolding Let_def f_def s_def t_def by blast
qed

end
